theory Spec2Isabelle
  imports Complex_Main
begin

section \<open>The plant monitor: data model\<close>

text \<open>
  The program \<^verbatim>\<open>plant_monitor.py\<close> keeps its state in module-level globals that
  are mutated by the GUI callbacks and by the timer callback \<^verbatim>\<open>update\<close>. The
  embedding collects the globals in one record and passes it through every callback.
  The outside world is made explicit: the files written through \<^verbatim>\<open>csv_writer\<close>,
  the console that \<^verbatim>\<open>print\<close> writes to, the two text boxes of the figure and the
  y-axis limits are fields of the same record; the wall clock, the serial port and the
  outcome of \<^verbatim>\<open>open\<close> are inputs of the callbacks.

  A voltage is a finite Python float, modelled by the real number that is its value
  (NaN and the infinities, which \<^verbatim>\<open>float\<close> also parses, are outside the model).
  A line of the serial port is rounded to a double when it is parsed; the first
  differences of the trend code are rounded as binary64 subtraction rounds them and
  compared with the double nearest to 0.002; the amplitude and the mean of the display
  are kept as the exact real values.

  Of the calls to the outside world only \<^verbatim>\<open>open\<close> is modelled as able to fail;
  writing a row to an open file, flushing it and the calls to the plotting library are
  taken to succeed. The handler \<^verbatim>\<open>on_close\<close>, which ends the program, is not part
  of the model.
\<close>

text \<open>
  The constant \<^verbatim>\<open>NOISE_THRESHOLD = 0.002\<close> is the double nearest to the decimal:
  the multiple \<open>1152921504606847\<close> of \<open>2\<^sup>-\<^sup>5\<^sup>9\<close>, slightly above \<open>2 / 1000\<close>.
\<close>

definition NOISE_THRESHOLD :: real where
  "NOISE_THRESHOLD = 1152921504606847 / 2 ^ 59"

definition MAX_POINTS :: nat where
  "MAX_POINTS = 300"

text \<open>A cell of a CSV row: \<^verbatim>\<open>writerow\<close> is given strings and the float voltage.\<close>

datatype field = Str string | Num real

type_synonym csv_row = "field list"

text \<open>
  A marker is the Python list \<^verbatim>\<open>[v_line, t_lbl, x]\<close>: the two plot artists carry
  the label text, the third cell is the remaining lifetime, which is also the x position.
\<close>

type_synonym marker = "string \<times> int"

text \<open>What \<^verbatim>\<open>print\<close> writes to the console, one constructor per message.\<close>

datatype message =
    Recording_started string
  | Create_file_failed
  | File_saved string
  | View_reset
  | Tick_error

datatype trend = Wait | Rising | Falling | Stable

text \<open>The right text box: the statistics and the trend of one tick.\<close>

record display =
  curr_val :: real
  max_val :: real
  min_val :: real
  avg_val :: real
  amp_val :: real
  trend_str :: trend

text \<open>
  The left text box: while recording it shows the run, the file and the last save time;
  while paused it shows the run, the two-digit number of the next run and the last save
  time.
\<close>

datatype status =
    Status_rec int string string
  | Status_paused int string string

record monitor =
  is_recording :: bool
  current_run_id :: int
  csv_file :: "string option"
  csv_writer :: "string option"
  current_filename :: string
  last_save_time_str :: string
  data_buffer :: "real list"
  active_markers :: "marker list"
  is_auto_scale :: bool
  last_valid_voltage :: real
  pending_event :: "string option"
  files :: "string \<rightharpoonup> csv_row list"
  console :: "message list"
  text_left :: "status option"
  text_right :: "display option"
  ylim :: "real \<times> real"

text \<open>
  One reading of the clock, as the three strings the program derives from it:
  \<^verbatim>\<open>now.strftime("%H:%M:%S.%f")[:-3]\<close>, the elapsed seconds formatted with three
  decimals, and \<^verbatim>\<open>now.strftime("%H:%M:%S")\<close>.
\<close>

record clock =
  time_str :: string
  elapsed_str :: string
  save_str :: string

text \<open>
  One line read from the serial port, after decoding and stripping: empty (the loop
  continues), text that \<^verbatim>\<open>float\<close> rejects with ValueError, or text that
  \<^verbatim>\<open>float\<close> accepts, given by the number it denotes.
\<close>

datatype reading = Blank | Garbage | Volts real

type_synonym line_in = "reading \<times> clock"

section \<open>Binary64 numbers\<close>

text \<open>
  A finite double is modelled by its value. \<open>round64\<close> rounds a real number to the
  nearest number with a significand of 53 bits, ties to the even significand: it is how
  \<^verbatim>\<open>float\<close> reads a decimal text and how the difference of two doubles is rounded.
  \<open>binade\<close> finds the exponent \<open>e\<close> with \<open>2\<^sup>e \<le> x < 2\<^sup>e\<^sup>+\<^sup>1\<close> of a positive \<open>x\<close> by
  halving or doubling; 1100 steps reach every difference of two finite doubles, and below
  \<open>2\<^sup>-\<^sup>1\<^sup>0\<^sup>2\<^sup>2\<close> the numbers are subnormal, with the spacing of that exponent. A
  difference beyond the largest double is infinite for Python and a large real here: it
  compares with the threshold in the same way.
\<close>

definition round_half_even :: "real \<Rightarrow> int" where
  "round_half_even x =
     (let n = \<lfloor>x\<rfloor>; r = x - of_int n
      in if r < 1 / 2 then n else if 1 / 2 < r then n + 1 else if even n then n else n + 1)"

fun binade :: "nat \<Rightarrow> real \<Rightarrow> int" where
  "binade fuel x =
     (if fuel = 0 then 0
      else if 2 \<le> x then binade (fuel - 1) (x / 2) + 1
      else if x < 1 then binade (fuel - 1) (2 * x) - 1
      else 0)"

declare binade.simps [simp del]

definition spacing :: "int \<Rightarrow> real" where
  "spacing e = (if 52 \<le> e then 2 ^ nat (e - 52) else 1 / 2 ^ nat (52 - e))"

definition round64 :: "real \<Rightarrow> real" where
  "round64 x =
     (if x = 0 then 0
      else (let q = spacing (max (binade 1100 \<bar>x\<bar>) (- 1022))
            in of_int (round_half_even (x / q)) * q))"

definition float_sub :: "real \<Rightarrow> real \<Rightarrow> real" where
  "float_sub a b = round64 (a - b)"

section \<open>The ring buffer: a deque with maxlen\<close>

text \<open>
  \<^verbatim>\<open>deque.append\<close> on a bounded deque appends on the right and, when the deque
  is then longer than \<^verbatim>\<open>maxlen\<close>, drops the leftmost element.
\<close>

definition deque_append :: "nat \<Rightarrow> 'a list \<Rightarrow> 'a \<Rightarrow> 'a list" where
  "deque_append maxlen d v =
     (let d' = d @ [v] in if maxlen < length d' then tl d' else d')"

definition deque_extend :: "nat \<Rightarrow> 'a list \<Rightarrow> 'a list \<Rightarrow> 'a list" where
  "deque_extend maxlen d vs = foldl (deque_append maxlen) d vs"

definition new_deque :: "'a list \<Rightarrow> nat \<Rightarrow> 'a list" where
  "new_deque vs maxlen = deque_extend maxlen [] vs"

section \<open>Starting and stopping a recording\<close>

fun digits_of :: "nat \<Rightarrow> string" where
  "digits_of n =
     (if n < 10 then [''0123456789'' ! n]
      else digits_of (n div 10) @ [''0123456789'' ! (n mod 10)])"

declare digits_of.simps [simp del]

text \<open>The format \<^verbatim>\<open>{n:02d}\<close>: at least two characters, padded with zeros.\<close>

definition fmt_02d :: "int \<Rightarrow> string" where
  "fmt_02d n =
     (if n < 0 then CHR ''-'' # digits_of (nat (- n))
      else if n < 10 then CHR ''0'' # digits_of (nat n)
      else digits_of (nat n))"

definition run_filename :: "int \<Rightarrow> string \<Rightarrow> string" where
  "run_filename run_id timestamp = ''Run_'' @ fmt_02d run_id @ ''_'' @ timestamp @ ''.csv''"

definition header_row :: csv_row where
  "header_row = [Str ''Timestamp'', Str ''Time_Sec'', Str ''Voltage'', Str ''Event_Note'']"

text \<open>\<^verbatim>\<open>csv_writer.writerow\<close>: one more row at the end of the writer's file.\<close>

definition writerow :: "string \<Rightarrow> csv_row \<Rightarrow> (string \<rightharpoonup> csv_row list) \<Rightarrow> (string \<rightharpoonup> csv_row list)" where
  "writerow fn row fs = fs(fn \<mapsto> (case fs fn of None \<Rightarrow> [row] | Some rows \<Rightarrow> rows @ [row]))"

text \<open>
  \<^verbatim>\<open>func_record_toggle\<close>. Its inputs are the clock's \<^verbatim>\<open>%H%M%S\<close> string
  and whether \<^verbatim>\<open>open\<close> succeeds; \<^verbatim>\<open>open(..., 'w')\<close> creates the file empty
  (or truncates it). When \<^verbatim>\<open>open\<close> raises, the handler prints and resets only the
  flag.
\<close>

definition func_record_toggle :: "string \<Rightarrow> bool \<Rightarrow> monitor \<Rightarrow> monitor" where
  "func_record_toggle timestamp open_ok st =
     (let st1 = st\<lparr>is_recording := \<not> is_recording st\<rparr> in
      if is_recording st1 then
        (let st2 = st1\<lparr>current_run_id := current_run_id st1 + 1\<rparr>;
             st3 = st2\<lparr>current_filename := run_filename (current_run_id st2) timestamp\<rparr>
         in if open_ok then
              st3\<lparr>csv_file := Some (current_filename st3),
                  csv_writer := Some (current_filename st3),
                  files := writerow (current_filename st3) header_row
                             ((files st3)(current_filename st3 \<mapsto> [])),
                  console := console st3 @ [Recording_started (current_filename st3)]\<rparr>
            else
              st3\<lparr>console := console st3 @ [Create_file_failed],
                  is_recording := False\<rparr>)
      else
        (if csv_file st1 \<noteq> None then
           st1\<lparr>csv_file := None, csv_writer := None,
               console := console st1 @ [File_saved (current_filename st1)]\<rparr>
         else st1))"

section \<open>The other GUI callbacks\<close>

definition func_check :: "string \<Rightarrow> monitor \<Rightarrow> monitor" where
  "func_check lbl st =
     (if lbl = ''Auto Scale'' then
        (let st1 = st\<lparr>is_auto_scale := \<not> is_auto_scale st\<rparr> in
         if \<not> is_auto_scale st1 then st1\<lparr>ylim := (0, 5)\<rparr> else st1)
      else st)"

text \<open>
  \<^verbatim>\<open>func_clear\<close>: the deque is cleared and extended with \<^verbatim>\<open>MAX_POINTS\<close>
  copies of the last valid voltage; every marker's artists are removed and the list is
  cleared.
\<close>

definition func_clear :: "monitor \<Rightarrow> monitor" where
  "func_clear st =
     st\<lparr>data_buffer := deque_extend MAX_POINTS [] (replicate MAX_POINTS (last_valid_voltage st)),
        active_markers := [],
        console := console st @ [View_reset]\<rparr>"

text \<open>The callback that \<^verbatim>\<open>make_callback(label)\<close> returns.\<close>

definition make_callback :: "string \<Rightarrow> monitor \<Rightarrow> monitor" where
  "make_callback lbl st = st\<lparr>pending_event := Some lbl\<rparr>"

text \<open>\<^verbatim>\<open>func_custom_record\<close>, with the text of the text box as input.\<close>

definition func_custom_record :: "string \<Rightarrow> monitor \<Rightarrow> monitor" where
  "func_custom_record txt st = (if txt \<noteq> [] then st\<lparr>pending_event := Some txt\<rparr> else st)"

section \<open>The timer callback\<close>

subsection \<open>Markers\<close>

text \<open>
  The first loop decrements the counter of every marker in place and collects the
  indices of those that went negative; the second pops these indices from the highest
  to the lowest.
\<close>

definition age_step :: "nat \<Rightarrow> marker list \<times> nat list \<Rightarrow> marker list \<times> nat list" where
  "age_step i = (\<lambda>(ms, dead).
     (let ms' = ms[i := (fst (ms ! i), snd (ms ! i) - 1)]
      in (ms', if snd (ms' ! i) < 0 then dead @ [i] else dead)))"

definition age_markers :: "marker list \<Rightarrow> marker list \<times> nat list" where
  "age_markers ms = fold age_step [0..<length ms] (ms, [])"

definition pop_at :: "nat \<Rightarrow> 'a list \<Rightarrow> 'a list" where
  "pop_at i ms = take i ms @ drop (Suc i) ms"

definition move_markers :: "marker list \<Rightarrow> marker list" where
  "move_markers ms = (let (ms', dead_markers) = age_markers ms in fold pop_at (rev dead_markers) ms')"

subsection \<open>The pending event\<close>

text \<open>
  The event block of \<^verbatim>\<open>update\<close>: the note is the empty string unless an event is
  pending; a pending event is taken out of the register and gets a marker at the right
  edge.
\<close>

definition take_pending :: "monitor \<Rightarrow> string \<times> monitor" where
  "take_pending st =
     (case pending_event st of
        None \<Rightarrow> ('''', st)
      | Some note \<Rightarrow>
          (note, st\<lparr>pending_event := None,
                    active_markers := active_markers st @ [(note, int MAX_POINTS - 1)]\<rparr>))"

subsection \<open>One accepted sample\<close>

definition save_row :: "real \<Rightarrow> string \<Rightarrow> clock \<Rightarrow> monitor \<Rightarrow> monitor" where
  "save_row voltage note clk st =
     (case csv_writer st of
        Some w \<Rightarrow>
          if is_recording st then
            st\<lparr>files := writerow w [Str (time_str clk), Str (elapsed_str clk), Num voltage, Str note]
                           (files st),
               last_save_time_str := save_str clk\<rparr>
          else st
      | None \<Rightarrow> st)"

definition accept_sample :: "real \<Rightarrow> clock \<Rightarrow> monitor \<Rightarrow> monitor" where
  "accept_sample voltage clk st =
     (let st1 = st\<lparr>data_buffer := deque_append MAX_POINTS (data_buffer st) voltage,
                   last_valid_voltage := voltage\<rparr>;
          st2 = st1\<lparr>active_markers := move_markers (active_markers st1)\<rparr>;
          (note_to_save, st3) = take_pending st2
      in save_row voltage note_to_save clk st3)"

text \<open>
  One line of the read loop. \<^verbatim>\<open>float\<close> returns the double nearest to the number
  that the text denotes.
\<close>

fun process_line :: "line_in \<Rightarrow> monitor \<Rightarrow> monitor" where
  "process_line (Blank, clk) st = st"
| "process_line (Garbage, clk) st = st"
| "process_line (Volts v, clk) st = accept_sample (round64 v) clk st"

text \<open>
  The read loop: the list holds the lines that are waiting at the port; the loop stops
  when nothing is waiting or when the limit is used up. Every line read, also an empty
  one, uses up one unit of the limit.
\<close>

fun read_loop :: "nat \<Rightarrow> line_in list \<Rightarrow> monitor \<Rightarrow> monitor" where
  "read_loop loop_limit [] st = st"
| "read_loop loop_limit (l # ls) st =
     (if 0 < loop_limit then read_loop (loop_limit - 1) ls (process_line l st) else st)"

subsection \<open>Statistics and trend\<close>

text \<open>\<^verbatim>\<open>np.diff\<close>: the differences of neighbours, each a binary64 subtraction.\<close>

fun diff :: "real list \<Rightarrow> real list" where
  "diff (a # b # xs) = float_sub b a # diff (b # xs)"
| "diff xs = []"

definition classify :: "real list \<Rightarrow> trend" where
  "classify y_data =
     (if 50 \<le> length y_data then
        (let diffs = diff (drop (length y_data - 50) y_data);
             up = length (filter (\<lambda>d. NOISE_THRESHOLD < d) diffs);
             down = length (filter (\<lambda>d. d < - NOISE_THRESHOLD) diffs)
         in if down + 5 < up then Rising
            else if up + 5 < down then Falling
            else Stable)
      else Wait)"

definition status_text :: "monitor \<Rightarrow> status" where
  "status_text st =
     (if is_recording st then
        Status_rec (current_run_id st) (current_filename st) (last_save_time_str st)
      else
        Status_paused (current_run_id st) (fmt_02d (current_run_id st + 1)) (last_save_time_str st))"

text \<open>
  The part of \<^verbatim>\<open>update\<close> after the read loop. \<^verbatim>\<open>np.max\<close> of an empty array
  raises; the handler around the whole tick prints the error and the tick ends there.
\<close>

definition present :: "monitor \<Rightarrow> monitor" where
  "present st =
     (let y_data = data_buffer st in
      if y_data = [] then st\<lparr>console := console st @ [Tick_error]\<rparr>
      else
        (let mx = foldl max (hd y_data) (tl y_data);
             mn = foldl min (hd y_data) (tl y_data);
             amp = mx - mn;
             avg = sum_list y_data / real (length y_data);
             st1 = st\<lparr>text_left := Some (status_text st),
                       text_right := Some \<lparr>curr_val = last_valid_voltage st, max_val = mx,
                                           min_val = mn, avg_val = avg, amp_val = amp,
                                           trend_str = classify y_data\<rparr>\<rparr>
         in if is_auto_scale st1 then
              (let margin = max (amp * (1 / 10)) (2 / 100)
               in st1\<lparr>ylim := (mn - margin, mx + margin)\<rparr>)
            else st1))"

definition update :: "line_in list \<Rightarrow> monitor \<Rightarrow> monitor" where
  "update lines st = present (read_loop 10 lines st)"

section \<open>The running program\<close>

definition init_state :: monitor where
  "init_state =
     \<lparr>is_recording = False, current_run_id = 0, csv_file = None, csv_writer = None,
      current_filename = ''Ready to Record'', last_save_time_str = ''---'',
      data_buffer = new_deque (replicate MAX_POINTS 0) MAX_POINTS,
      active_markers = [], is_auto_scale = False, last_valid_voltage = 0,
      pending_event = None, files = Map.empty, console = [],
      text_left = None, text_right = None, ylim = (0, 5)\<rparr>"

text \<open>
  What can happen to the running program: a click on one of the widgets, or a tick of
  the animation timer with the lines waiting at the serial port.
\<close>

datatype action =
    Record_toggle string bool
  | Check string
  | Clear
  | Preset string
  | Custom_record string
  | Tick "line_in list"

fun step :: "monitor \<Rightarrow> action \<Rightarrow> monitor" where
  "step st (Record_toggle timestamp open_ok) = func_record_toggle timestamp open_ok st"
| "step st (Check lbl) = func_check lbl st"
| "step st Clear = func_clear st"
| "step st (Preset lbl) = make_callback lbl st"
| "step st (Custom_record txt) = func_custom_record txt st"
| "step st (Tick lines) = update lines st"

definition run :: "monitor \<Rightarrow> action list \<Rightarrow> monitor" where
  "run st acts = foldl step st acts"

section \<open>Vocabulary of the properties\<close>

text \<open>
  A sequence of pushes: accepted samples, each with the clock reading of its tick,
  processed one after the other.
\<close>

definition feed :: "monitor \<Rightarrow> (real \<times> clock) list \<Rightarrow> monitor" where
  "feed st samples = fold (\<lambda>(v, clk). accept_sample v clk) samples st"

fun accepted_lines :: "line_in list \<Rightarrow> (real \<times> clock) list" where
  "accepted_lines [] = []"
| "accepted_lines ((Volts v, clk) # ls) = (round64 v, clk) # accepted_lines ls"
| "accepted_lines (l # ls) = accepted_lines ls"

text \<open>The accepted samples of a tick are those among the first ten lines that parse.\<close>

definition tick_samples :: "line_in list \<Rightarrow> (real \<times> clock) list" where
  "tick_samples lines = accepted_lines (take 10 lines)"

fun samples_of :: "action list \<Rightarrow> (real \<times> clock) list" where
  "samples_of [] = []"
| "samples_of (Tick lines # acts) = tick_samples lines @ samples_of acts"
| "samples_of (a # acts) = samples_of acts"

fun is_toggle :: "action \<Rightarrow> bool" where
  "is_toggle (Record_toggle timestamp open_ok) = True"
| "is_toggle a = False"

text \<open>The variables of the recorder, as one value.\<close>

definition recorder :: "monitor \<Rightarrow> bool \<times> int \<times> string option \<times> string option \<times> string" where
  "recorder st =
     (is_recording st, current_run_id st, csv_file st, csv_writer st, current_filename st)"

text \<open>A data row of an accepted sample: clock time, elapsed time, voltage and a note.\<close>

fun data_row :: "csv_row \<Rightarrow> real \<times> clock \<Rightarrow> bool" where
  "data_row [Str t, Str e, Num x, Str note] (v, clk) =
     (t = time_str clk \<and> e = elapsed_str clk \<and> x = v)"
| "data_row row smp = False"

text \<open>The trend that the right text box shows, if it shows any.\<close>

definition trend_shown :: "monitor \<Rightarrow> trend option" where
  "trend_shown st = map_option trend_str (text_right st)"

section \<open>The ring buffer\<close>

lemma deque_extend_drop:
  "length d \<le> n \<Longrightarrow> deque_extend n d vs = drop (length d + length vs - n) (d @ vs)"
  unfolding deque_extend_def
proof (induction vs arbitrary: d)
  case Nil
  then show ?case by simp
next
  case (Cons v vs)
  show ?case
  proof (cases "length d < n")
    case True
    then have a: "deque_append n d v = d @ [v]" by (simp add: deque_append_def)
    have "length (d @ [v]) \<le> n" using True by simp
    from Cons.IH [OF this] show ?thesis by (simp add: a)
  next
    case False
    with Cons.prems have len: "length d = n" by simp
    then have a: "deque_append n d v = tl (d @ [v])" by (simp add: deque_append_def)
    have l: "length (tl (d @ [v])) = n" using len by simp
    then have "length (tl (d @ [v])) \<le> n" by simp
    from Cons.IH [OF this] have
      "foldl (deque_append n) (tl (d @ [v])) vs =
         drop (length (tl (d @ [v])) + length vs - n) (tl (d @ [v]) @ vs)" .
    then have ih: "foldl (deque_append n) (tl (d @ [v])) vs = drop (length vs) (tl (d @ [v]) @ vs)"
      by (simp only: l add_diff_cancel_left')
    have "drop (length d + length (v # vs) - n) (d @ v # vs) = drop (Suc (length vs)) ((d @ [v]) @ vs)"
      by (simp add: len)
    also have "\<dots> = drop (length vs) (tl ((d @ [v]) @ vs))"
      by (simp only: drop_Suc)
    also have "tl ((d @ [v]) @ vs) = tl (d @ [v]) @ vs"
      by (cases d) simp_all
    finally show ?thesis by (simp only: foldl_Cons a ih)
  qed
qed

lemma new_deque_replicate: "new_deque (replicate n v) n = replicate n v"
  by (simp add: new_deque_def deque_extend_drop)

section \<open>Marker ageing\<close>

text \<open>
  The two index loops of the marker block together keep, in order, exactly the markers
  whose decremented counter is not negative.
\<close>

lemma age_loop_prefix:
  "k \<le> length ms \<Longrightarrow>
   fold age_step [0..<k] (ms, []) =
     (map (\<lambda>m. (fst m, snd m - 1)) (take k ms) @ drop k ms,
      filter (\<lambda>i. snd (ms ! i) - 1 < 0) [0..<k])"
proof (induction k)
  case 0
  then show ?case by simp
next
  case (Suc k)
  let ?d = "\<lambda>m::marker. (fst m, snd m - 1)"
  let ?ms = "map ?d (take k ms) @ drop k ms"
  from Suc.prems have k: "k < length ms" by simp
  have nth: "?ms ! k = ms ! k"
    using k by (simp add: nth_append)
  have upd: "?ms[k := ?d (ms ! k)] = map ?d (take (Suc k) ms) @ drop (Suc k) ms"
  proof -
    have "drop k ms = ms ! k # drop (Suc k) ms"
      using k by (simp add: Cons_nth_drop_Suc)
    then have "?ms[k := ?d (ms ! k)] = map ?d (take k ms) @ (?d (ms ! k) # drop (Suc k) ms)"
      using k by (simp add: list_update_append)
    then show ?thesis
      using k by (simp add: take_Suc_conv_app_nth)
  qed
  have nth': "(map ?d (take (Suc k) ms) @ drop (Suc k) ms) ! k = ?d (ms ! k)"
    using k by (simp add: nth_append take_Suc_conv_app_nth)
  from Suc.IH k have ih: "fold age_step [0..<k] (ms, []) = (?ms, filter (\<lambda>i. snd (ms ! i) - 1 < 0) [0..<k])"
    by simp
  have "fold age_step [0..<Suc k] (ms, []) =
          age_step k (?ms, filter (\<lambda>i. snd (ms ! i) - 1 < 0) [0..<k])"
    by (simp add: ih)
  also have "\<dots> = (map ?d (take (Suc k) ms) @ drop (Suc k) ms,
                    filter (\<lambda>i. snd (ms ! i) - 1 < 0) [0..<Suc k])"
    unfolding age_step_def split_conv Let_def nth upd nth' by simp
  finally show ?case .
qed

lemma age_markers_eq:
  "age_markers ms =
     (map (\<lambda>m. (fst m, snd m - 1)) ms, filter (\<lambda>i. snd (ms ! i) - 1 < 0) [0..<length ms])"
  by (simp add: age_markers_def age_loop_prefix)

lemma pop_at_nth: "i < k \<Longrightarrow> k < length ms \<Longrightarrow> pop_at k ms ! i = ms ! i"
  by (simp add: pop_at_def nth_append)

lemma pop_loop_prefix:
  "k \<le> length ms \<Longrightarrow>
   fold pop_at (rev (filter (\<lambda>i. Q (ms ! i)) [0..<k])) ms =
     filter (\<lambda>m. \<not> Q m) (take k ms) @ drop k ms"
proof (induction k arbitrary: ms)
  case 0
  then show ?case by simp
next
  case (Suc k)
  from Suc.prems have k: "k < length ms" by simp
  show ?case
  proof (cases "Q (ms ! k)")
    case True
    have same: "filter (\<lambda>i. Q (ms ! i)) [0..<k] = filter (\<lambda>i. Q (pop_at k ms ! i)) [0..<k]"
      using k by (intro filter_cong) (simp_all add: pop_at_nth)
    have len: "k \<le> length (pop_at k ms)"
      using k by (simp add: pop_at_def)
    have "fold pop_at (rev (filter (\<lambda>i. Q (ms ! i)) [0..<Suc k])) ms =
          fold pop_at (rev (filter (\<lambda>i. Q (pop_at k ms ! i)) [0..<k])) (pop_at k ms)"
      using True by (simp add: same)
    also have "\<dots> = filter (\<lambda>m. \<not> Q m) (take k (pop_at k ms)) @ drop k (pop_at k ms)"
      by (rule Suc.IH [OF len])
    also have "take k (pop_at k ms) = take k ms"
      using k by (simp add: pop_at_def)
    also have "drop k (pop_at k ms) = drop (Suc k) ms"
      using k by (simp add: pop_at_def)
    finally show ?thesis
      using True k by (simp add: take_Suc_conv_app_nth)
  next
    case False
    have "fold pop_at (rev (filter (\<lambda>i. Q (ms ! i)) [0..<Suc k])) ms =
          fold pop_at (rev (filter (\<lambda>i. Q (ms ! i)) [0..<k])) ms"
      using False by simp
    also have "\<dots> = filter (\<lambda>m. \<not> Q m) (take k ms) @ drop k ms"
      using k by (intro Suc.IH) simp
    finally show ?thesis
      using False k by (simp add: take_Suc_conv_app_nth flip: Cons_nth_drop_Suc)
  qed
qed

lemma move_markers_eq:
  "move_markers ms = filter (\<lambda>m. \<not> snd m < 0) (map (\<lambda>m. (fst m, snd m - 1)) ms)"
proof -
  let ?ms' = "map (\<lambda>m::marker. (fst m, snd m - 1)) ms"
  have dead: "filter (\<lambda>i. snd (ms ! i) - 1 < 0) [0..<length ms] =
              filter (\<lambda>i. snd (?ms' ! i) < 0) [0..<length ?ms']"
    by (intro filter_cong) simp_all
  have "move_markers ms = fold pop_at (rev (filter (\<lambda>i. snd (?ms' ! i) < 0) [0..<length ?ms'])) ?ms'"
    by (simp only: move_markers_def age_markers_eq dead Let_def split_conv)
  also have "\<dots> = filter (\<lambda>m. \<not> snd m < 0) (take (length ?ms') ?ms') @ drop (length ?ms') ?ms'"
    by (rule pop_loop_prefix [where Q = "\<lambda>m. snd m < 0"]) simp
  finally show ?thesis by simp
qed

section \<open>What one accepted sample changes\<close>

lemma data_buffer_accept_sample:
  "data_buffer (accept_sample v clk st) = deque_append MAX_POINTS (data_buffer st) v"
  by (simp add: accept_sample_def take_pending_def save_row_def Let_def split: option.splits)

lemma last_valid_voltage_accept_sample:
  "last_valid_voltage (accept_sample v clk st) = v"
  by (simp add: accept_sample_def take_pending_def save_row_def Let_def split: option.splits)

lemma active_markers_accept_sample:
  "active_markers (accept_sample v clk st) =
     move_markers (active_markers st) @
       (case pending_event st of None \<Rightarrow> [] | Some note \<Rightarrow> [(note, int MAX_POINTS - 1)])"
  by (simp add: accept_sample_def take_pending_def save_row_def Let_def split: option.splits)

lemma pending_event_accept_sample:
  "pending_event (accept_sample v clk st) = None"
  by (simp add: accept_sample_def take_pending_def save_row_def Let_def split: option.splits)

lemma recorder_accept_sample:
  "is_recording (accept_sample v clk st) = is_recording st"
  "current_run_id (accept_sample v clk st) = current_run_id st"
  "csv_file (accept_sample v clk st) = csv_file st"
  "csv_writer (accept_sample v clk st) = csv_writer st"
  "current_filename (accept_sample v clk st) = current_filename st"
  "console (accept_sample v clk st) = console st"
  by (simp_all add: accept_sample_def take_pending_def save_row_def Let_def split: option.splits)

lemma files_accept_sample:
  "files (accept_sample v clk st) =
     (case csv_writer st of
        Some w \<Rightarrow>
          if is_recording st then
            writerow w [Str (time_str clk), Str (elapsed_str clk), Num v,
                        Str (case pending_event st of None \<Rightarrow> '''' | Some note \<Rightarrow> note)] (files st)
          else files st
      | None \<Rightarrow> files st)"
  by (simp add: accept_sample_def take_pending_def save_row_def Let_def split: option.splits)

lemma read_loop_feed:
  "read_loop n ls st = feed st (accepted_lines (take n ls))"
proof (induction n ls st rule: read_loop.induct)
  case (1 loop_limit st)
  then show ?case by (simp add: feed_def)
next
  case (2 loop_limit l ls st)
  show ?case
  proof (cases "0 < loop_limit")
    case True
    then obtain m where m: "loop_limit = Suc m" by (cases loop_limit) auto
    obtain r clk where l: "l = (r, clk)" by (cases l)
    from 2 True have "read_loop (loop_limit - 1) ls (process_line l st) =
        feed (process_line l st) (accepted_lines (take (loop_limit - 1) ls))" by simp
    then show ?thesis
      using True by (cases r) (simp_all add: m l feed_def)
  next
    case False
    then show ?thesis by (simp add: feed_def)
  qed
qed

lemma data_buffer_feed:
  "data_buffer (feed st samples) = deque_extend MAX_POINTS (data_buffer st) (map fst samples)"
  unfolding feed_def deque_extend_def
  by (induction samples arbitrary: st) (auto simp: data_buffer_accept_sample)

section \<open>The ring buffer of the running program\<close>

lemma data_buffer_init: "data_buffer init_state = replicate MAX_POINTS 0"
  by (simp add: init_state_def new_deque_replicate)

lemma length_feed:
  "length (data_buffer st) = MAX_POINTS \<Longrightarrow> length (data_buffer (feed st samples)) = MAX_POINTS"
  by (simp add: data_buffer_feed deque_extend_drop)

lemma feed_init_buffer:
  "data_buffer (feed init_state samples) =
     drop (length samples) (replicate MAX_POINTS 0 @ map fst samples)"
  by (simp add: data_buffer_feed data_buffer_init deque_extend_drop del: drop_append)

text \<open>
  C1. The buffer is constructed with \<^verbatim>\<open>MAX_POINTS\<close> filler zeros. After any
  sequence of pushes its snapshot has exactly \<^verbatim>\<open>MAX_POINTS\<close> elements: the last
  \<^verbatim>\<open>MAX_POINTS\<close> elements of the fillers followed by the pushed samples in arrival
  order. Once at least \<^verbatim>\<open>MAX_POINTS\<close> samples were pushed these are exactly the
  most recent \<^verbatim>\<open>MAX_POINTS\<close> pushed samples, and every further push evicts the
  oldest element.
\<close>

theorem ring_buffer_snapshot:
  "length (data_buffer (feed init_state samples)) = MAX_POINTS \<and>
   data_buffer (feed init_state samples) =
     drop (length samples) (replicate MAX_POINTS 0 @ map fst samples) \<and>
   (MAX_POINTS \<le> length samples \<longrightarrow>
      data_buffer (feed init_state samples) = drop (length samples - MAX_POINTS) (map fst samples)) \<and>
   data_buffer (accept_sample v clk (feed init_state samples)) =
     tl (data_buffer (feed init_state samples)) @ [v]"
proof -
  let ?b = "data_buffer (feed init_state samples)"
  have eq: "?b = drop (length samples) (replicate MAX_POINTS 0 @ map fst samples)"
    by (rule feed_init_buffer)
  have len: "length ?b = MAX_POINTS"
    by (simp add: eq)
  have recent: "?b = drop (length samples - MAX_POINTS) (map fst samples)"
    if "MAX_POINTS \<le> length samples"
    using that by (simp add: eq)
  have "0 < MAX_POINTS"
    by (simp add: MAX_POINTS_def)
  with len have "deque_append MAX_POINTS ?b v = tl ?b @ [v]"
    by (cases ?b) (simp_all add: deque_append_def)
  then have evict: "data_buffer (accept_sample v clk (feed init_state samples)) = tl ?b @ [v]"
    by (simp add: data_buffer_accept_sample)
  from len eq recent evict show ?thesis by blast
qed

theorem ring_buffer_snapshot_witness:
  "MAX_POINTS \<le> length (replicate 300 (1::real, \<lparr>time_str = ''t'', elapsed_str = ''e'', save_str = ''s''\<rparr>) @ [(2, \<lparr>time_str = ''t'', elapsed_str = ''e'', save_str = ''s''\<rparr>)]) \<and>
   data_buffer (feed init_state (replicate 300 (1, \<lparr>time_str = ''t'', elapsed_str = ''e'', save_str = ''s''\<rparr>) @ [(2, \<lparr>time_str = ''t'', elapsed_str = ''e'', save_str = ''s''\<rparr>)]))
     = replicate 299 1 @ [2]"
  using ring_buffer_snapshot [of "replicate 300 (1, \<lparr>time_str = ''t'', elapsed_str = ''e'', save_str = ''s''\<rparr>) @ [(2, \<lparr>time_str = ''t'', elapsed_str = ''e'', save_str = ''s''\<rparr>)]"]
  by (simp add: MAX_POINTS_def)

section \<open>Markers\<close>

lemma active_markers_present: "active_markers (present st) = active_markers st"
  by (simp add: present_def Let_def)

text \<open>
  C7. Processing one accepted sample decrements the counter of every active marker
  exactly once, removes exactly the markers whose counter is then negative, keeps the
  others in order, and appends one new marker (with the full lifetime, not decremented
  in that sample) exactly when a pending event is consumed. A line that is not accepted,
  the presentation step and the callbacks for recording, auto scale and events leave the
  markers as they are, so a marker is created nowhere else.
\<close>

theorem marker_lifecycle:
  "active_markers (accept_sample v clk st) =
     filter (\<lambda>m. \<not> snd m < 0) (map (\<lambda>m. (fst m, snd m - 1)) (active_markers st)) @
       (case pending_event st of None \<Rightarrow> [] | Some note \<Rightarrow> [(note, int MAX_POINTS - 1)]) \<and>
   pending_event (accept_sample v clk st) = None \<and>
   active_markers (process_line (Blank, clk) st) = active_markers st \<and>
   active_markers (process_line (Garbage, clk) st) = active_markers st \<and>
   active_markers (present st) = active_markers st \<and>
   active_markers (func_record_toggle timestamp open_ok st) = active_markers st \<and>
   active_markers (func_check lbl st) = active_markers st \<and>
   active_markers (make_callback lbl st) = active_markers st \<and>
   active_markers (func_custom_record txt st) = active_markers st"
proof -
  have "active_markers (func_record_toggle timestamp open_ok st) = active_markers st"
    by (simp add: func_record_toggle_def Let_def)
  moreover have "active_markers (func_check lbl st) = active_markers st"
    by (simp add: func_check_def Let_def)
  moreover have "active_markers (make_callback lbl st) = active_markers st"
    by (simp add: make_callback_def)
  moreover have "active_markers (func_custom_record txt st) = active_markers st"
    by (simp add: func_custom_record_def)
  ultimately show ?thesis
    by (simp add: active_markers_accept_sample move_markers_eq pending_event_accept_sample
        active_markers_present)
qed

section \<open>Reset view\<close>

lemma data_buffer_func_clear:
  "data_buffer (func_clear st) = replicate MAX_POINTS (last_valid_voltage st)"
  by (simp add: func_clear_def deque_extend_drop)

text \<open>
  C8. Reset view removes every marker and refills the ring buffer to its full capacity
  with the last valid voltage. It leaves the recording flag, the run counter, the
  filename, the file handle, the writer and the files as they are, and the next accepted
  sample is written to the open session as it would have been without the reset.
\<close>

theorem func_clear_frame:
  "active_markers (func_clear st) = [] \<and>
   data_buffer (func_clear st) = replicate MAX_POINTS (last_valid_voltage st) \<and>
   length (data_buffer (func_clear st)) = MAX_POINTS \<and>
   is_recording (func_clear st) = is_recording st \<and>
   current_run_id (func_clear st) = current_run_id st \<and>
   current_filename (func_clear st) = current_filename st \<and>
   csv_file (func_clear st) = csv_file st \<and>
   csv_writer (func_clear st) = csv_writer st \<and>
   files (func_clear st) = files st \<and>
   last_valid_voltage (func_clear st) = last_valid_voltage st \<and>
   files (accept_sample v clk (func_clear st)) = files (accept_sample v clk st)"
proof -
  have frame: "csv_writer (func_clear st) = csv_writer st"
    "is_recording (func_clear st) = is_recording st"
    "pending_event (func_clear st) = pending_event st"
    "files (func_clear st) = files st"
    by (simp_all add: func_clear_def)
  have "files (accept_sample v clk (func_clear st)) = files (accept_sample v clk st)"
    by (simp only: files_accept_sample frame)
  then show ?thesis
    by (simp add: data_buffer_func_clear) (simp add: func_clear_def)
qed

section \<open>Trend classification\<close>

lemma NOISE_THRESHOLD_pos: "0 < NOISE_THRESHOLD"
  by (simp add: NOISE_THRESHOLD_def)

lemma round64_one: "round64 1 = 1" "round64 (- 1) = - 1" "round64 5 = 5"
  by (simp_all add: round64_def binade.simps spacing_def round_half_even_def)

lemma float_sub_same: "float_sub c c = 0"
  by (simp add: float_sub_def round64_def)

lemma length_diff: "length (diff xs) = length xs - 1"
  by (induction xs rule: diff.induct) simp_all

lemma nth_diff: "Suc i < length xs \<Longrightarrow> diff xs ! i = float_sub (xs ! Suc i) (xs ! i)"
proof (induction xs arbitrary: i rule: diff.induct)
  case (1 a b xs)
  then show ?case by (cases i) simp_all
qed simp_all

lemma count_diff:
  "length (filter P (diff xs)) =
     card {i. Suc i < length xs \<and> P (float_sub (xs ! Suc i) (xs ! i))}"
proof -
  have "{i. i < length (diff xs) \<and> P (diff xs ! i)} =
        {i. Suc i < length xs \<and> P (float_sub (xs ! Suc i) (xs ! i))}"
    by (auto simp: length_diff nth_diff)
  then show ?thesis
    by (simp add: length_filter_conv_card)
qed

lemma diff_successively:
  "successively (\<lambda>a b. P (float_sub b a)) xs \<Longrightarrow> filter P (diff xs) = diff xs"
  by (induction xs rule: diff.induct) simp_all

lemma diff_successively_none:
  "successively (\<lambda>a b. \<not> P (float_sub b a)) xs \<Longrightarrow> filter P (diff xs) = []"
  by (induction xs rule: diff.induct) simp_all

lemma successively_neighbours:
  "(\<And>i. Suc i < length xs \<Longrightarrow> P (xs ! i) (xs ! Suc i)) \<Longrightarrow> successively P xs"
proof (induction P xs rule: successively.induct)
  case (3 P x y xs)
  have "P x y"
    using "3.prems" [of 0] by simp
  moreover have "successively P (y # xs)"
  proof (rule "3.IH")
    fix i
    assume "Suc i < length (y # xs)"
    then show "P ((y # xs) ! i) ((y # xs) ! Suc i)"
      using "3.prems" [of "Suc i"] by simp
  qed
  ultimately show ?case by simp
qed simp_all

lemma classify_steps:
  assumes len: "length w = 50"
    and up: "successively (\<lambda>a b. U (float_sub b a)) w"
    and nd: "\<And>d. U d \<Longrightarrow> \<not> D d"
  shows "length (filter U (diff w)) = 49 \<and> length (filter D (diff w)) = 0"
proof -
  have "filter U (diff w) = diff w"
    using up by (rule diff_successively)
  moreover have "successively (\<lambda>a b. \<not> D (float_sub b a)) w"
    using up by (rule successively_mono) (rule nd)
  then have "filter D (diff w) = []"
    by (rule diff_successively_none)
  ultimately show ?thesis
    by (simp add: length_diff len)
qed

lemma classify_window:
  "length w = 50 \<Longrightarrow>
   classify (pre @ w) =
     (let up = length (filter (\<lambda>d. NOISE_THRESHOLD < d) (diff w));
          down = length (filter (\<lambda>d. d < - NOISE_THRESHOLD) (diff w))
      in if down + 5 < up then Rising else if up + 5 < down then Falling else Stable)"
  by (simp add: classify_def Let_def)

text \<open>
  At the boundary: a step that is exactly the double 0.002 is not above the threshold,
  and the samples 0, 0.002 and 0.004 (as doubles) are such steps apart.
\<close>

lemma float_sub_threshold:
  "float_sub NOISE_THRESHOLD 0 = NOISE_THRESHOLD"
  "float_sub (2 * NOISE_THRESHOLD) NOISE_THRESHOLD = NOISE_THRESHOLD"
  "float_sub 0 (2 * NOISE_THRESHOLD) = - (2 * NOISE_THRESHOLD)"
  by (simp_all add: float_sub_def round64_def binade.simps spacing_def round_half_even_def
      NOISE_THRESHOLD_def)

text \<open>
  C3. A buffer of fewer than 50 samples is classified \<open>Wait\<close>. For a buffer that ends
  with the 50 samples \<open>w\<close>, a step is the difference of two neighbours of \<open>w\<close> as the
  program computes it, in binary64 arithmetic. Let up be the number of steps above the
  noise threshold and down the number of steps below its negation: the trend is
  \<open>Rising\<close> when up exceeds down by more than 5, \<open>Falling\<close> when down exceeds up by more
  than 5, and \<open>Stable\<close> otherwise. So 50 samples whose every step is above the threshold
  are \<open>Rising\<close>, 50 samples whose every step is below the negated threshold are
  \<open>Falling\<close>, and 50 equal samples are \<open>Stable\<close>.
\<close>

theorem trend_classification:
  "(length y < 50 \<longrightarrow> classify y = Wait) \<and>
   (length w = 50 \<longrightarrow>
      classify (pre @ w) =
        (let up = card {i. Suc i < 50 \<and> NOISE_THRESHOLD < float_sub (w ! Suc i) (w ! i)};
             down = card {i. Suc i < 50 \<and> float_sub (w ! Suc i) (w ! i) < - NOISE_THRESHOLD}
         in if down + 5 < up then Rising else if up + 5 < down then Falling else Stable)) \<and>
   (length w = 50 \<and> successively (\<lambda>a b. NOISE_THRESHOLD < float_sub b a) w \<longrightarrow>
      classify (pre @ w) = Rising) \<and>
   (length w = 50 \<and> successively (\<lambda>a b. float_sub b a < - NOISE_THRESHOLD) w \<longrightarrow>
      classify (pre @ w) = Falling) \<and>
   classify (pre @ replicate 50 c) = Stable"
proof -
  note pos = NOISE_THRESHOLD_pos
  have wait: "classify y = Wait" if "length y < 50"
    using that by (simp add: classify_def)
  have counts: "classify (pre @ w) =
        (let up = card {i. Suc i < 50 \<and> NOISE_THRESHOLD < float_sub (w ! Suc i) (w ! i)};
             down = card {i. Suc i < 50 \<and> float_sub (w ! Suc i) (w ! i) < - NOISE_THRESHOLD}
         in if down + 5 < up then Rising else if up + 5 < down then Falling else Stable)"
    if "length w = 50"
    using that by (simp add: classify_window count_diff Let_def)
  have rising: "classify (pre @ w) = Rising"
    if "length w = 50" "successively (\<lambda>a b. NOISE_THRESHOLD < float_sub b a) w"
  proof -
    have "length (filter (\<lambda>d. NOISE_THRESHOLD < d) (diff w)) = 49 \<and>
          length (filter (\<lambda>d. d < - NOISE_THRESHOLD) (diff w)) = 0"
      using that pos by (intro classify_steps) simp_all
    then show ?thesis
      using that(1) by (simp add: classify_window Let_def)
  qed
  have falling: "classify (pre @ w) = Falling"
    if "length w = 50" "successively (\<lambda>a b. float_sub b a < - NOISE_THRESHOLD) w"
  proof -
    have "length (filter (\<lambda>d. d < - NOISE_THRESHOLD) (diff w)) = 49 \<and>
          length (filter (\<lambda>d. NOISE_THRESHOLD < d) (diff w)) = 0"
      using that pos by (intro classify_steps) simp_all
    then show ?thesis
      using that(1) by (simp add: classify_window Let_def)
  qed
  have "successively (\<lambda>a b. \<not> NOISE_THRESHOLD < float_sub b a) (replicate 50 c)"
    "successively (\<lambda>a b. \<not> float_sub b a < - NOISE_THRESHOLD) (replicate 50 c)"
    using pos by (intro successively_neighbours, simp add: float_sub_same)+
  then have "filter (\<lambda>d. NOISE_THRESHOLD < d) (diff (replicate 50 c)) = []"
    "filter (\<lambda>d. d < - NOISE_THRESHOLD) (diff (replicate 50 c)) = []"
    by (simp_all add: diff_successively_none)
  then have stable: "classify (pre @ replicate 50 c) = Stable"
    by (simp add: classify_window Let_def)
  from wait counts rising falling stable show ?thesis by blast
qed

theorem trend_classification_witness:
  "length (replicate 49 (1::real)) < 50 \<and> classify (replicate 49 1) = Wait \<and>
   length (map real [0..<50]) = 50 \<and>
   successively (\<lambda>a b. NOISE_THRESHOLD < float_sub b a) (map real [0..<50]) \<and>
   classify ([7, 3] @ map real [0..<50]) = Rising \<and>
   length (map (\<lambda>i. - real i) [0..<50]) = 50 \<and>
   successively (\<lambda>a b. float_sub b a < - NOISE_THRESHOLD) (map (\<lambda>i. - real i) [0..<50]) \<and>
   classify ([7, 3] @ map (\<lambda>i. - real i) [0..<50]) = Falling"
proof -
  have up: "successively (\<lambda>a b. NOISE_THRESHOLD < float_sub b a) (map real [0..<50])"
    by (rule successively_neighbours)
      (simp add: float_sub_def round64_one NOISE_THRESHOLD_def)
  have down: "successively (\<lambda>a b. float_sub b a < - NOISE_THRESHOLD) (map (\<lambda>i. - real i) [0..<50])"
    by (rule successively_neighbours)
      (simp add: float_sub_def round64_one NOISE_THRESHOLD_def)
  have len: "length (map real [0..<50]) = 50" "length (map (\<lambda>i. - real i) [0..<50]) = 50"
    "length (replicate 49 (1::real)) < 50"
    by simp_all
  from trend_classification [of "replicate 49 1" "map real [0..<50]" "[7, 3]"]
  have "classify (replicate 49 1) = Wait" "classify ([7, 3] @ map real [0..<50]) = Rising"
    using len up by blast+
  moreover
  from trend_classification [of "replicate 49 1" "map (\<lambda>i. - real i) [0..<50]" "[7, 3]"]
  have "classify ([7, 3] @ map (\<lambda>i. - real i) [0..<50]) = Falling"
    using len down by blast
  ultimately show ?thesis
    using len up down by blast
qed

section \<open>The recorder\<close>

lemma recorder_accept: "recorder (accept_sample v clk st) = recorder st"
  by (simp add: recorder_def recorder_accept_sample)

lemma recorder_feed: "recorder (feed st samples) = recorder st"
  unfolding feed_def
  by (induction samples arbitrary: st) (auto simp: recorder_accept)

lemma recorder_present: "recorder (present st) = recorder st"
  by (simp add: recorder_def present_def Let_def)

lemma files_present: "files (present st) = files st"
  by (simp add: present_def Let_def)

lemma update_feed: "update lines st = present (feed st (tick_samples lines))"
  by (simp add: update_def read_loop_feed tick_samples_def)

lemma recorder_step:
  "\<not> is_toggle a \<Longrightarrow> recorder (step st a) = recorder st"
proof (cases a)
  case (Tick lines)
  then show ?thesis
    by (simp add: update_feed recorder_present recorder_feed)
qed (simp_all add: recorder_def func_check_def func_clear_def make_callback_def
      func_custom_record_def Let_def)

lemma files_feed_idle:
  "\<not> is_recording st \<Longrightarrow> files (feed st samples) = files st"
  unfolding feed_def
proof (induction samples arbitrary: st)
  case Nil
  then show ?case by simp
next
  case (Cons s samples)
  obtain v clk where s: "s = (v, clk)" by (cases s)
  have "\<not> is_recording (accept_sample v clk st)"
    using Cons.prems by (simp add: recorder_accept_sample)
  from Cons.IH [OF this] Cons.prems show ?case
    by (simp add: s files_accept_sample split: option.splits)
qed

lemma files_step_idle:
  "\<not> is_toggle a \<Longrightarrow> \<not> is_recording st \<Longrightarrow> files (step st a) = files st"
proof (cases a)
  case (Tick lines)
  assume "\<not> is_recording st"
  with Tick show ?thesis
    by (simp add: update_feed files_present files_feed_idle)
qed (simp_all add: func_check_def func_clear_def make_callback_def
      func_custom_record_def Let_def)

lemma run_idle:
  "\<forall>a\<in>set acts. \<not> is_toggle a \<Longrightarrow> \<not> is_recording st \<Longrightarrow>
   recorder (run st acts) = recorder st \<and> files (run st acts) = files st"
  unfolding run_def
proof (induction acts arbitrary: st)
  case Nil
  then show ?case by simp
next
  case (Cons a acts)
  then have a: "\<not> is_toggle a" and rest: "\<forall>a\<in>set acts. \<not> is_toggle a"
    by simp_all
  have r: "recorder (step st a) = recorder st"
    using a by (rule recorder_step)
  then have idle: "\<not> is_recording (step st a)"
    using Cons.prems(2) by (simp add: recorder_def)
  from Cons.IH [OF rest idle] r files_step_idle [OF a Cons.prems(2)]
  show ?case by simp
qed

lemma files_accept_active:
  assumes "is_recording st" "csv_writer st = Some fn" "files st fn = Some rs"
  shows "\<exists>row. files (accept_sample v clk st) = (files st)(fn \<mapsto> rs @ [row]) \<and>
               data_row row (v, clk)"
proof (intro exI conjI)
  let ?note = "case pending_event st of None \<Rightarrow> [] | Some note \<Rightarrow> note"
  let ?row = "[Str (time_str clk), Str (elapsed_str clk), Num v, Str ?note]"
  show "files (accept_sample v clk st) = (files st)(fn \<mapsto> rs @ [?row])"
    using assms by (simp add: files_accept_sample writerow_def)
  show "data_row ?row (v, clk)"
    by simp
qed

lemma files_feed_active:
  "is_recording st \<Longrightarrow> csv_writer st = Some fn \<Longrightarrow> files st fn = Some rs \<Longrightarrow>
   \<exists>rows. files (feed st samples) = (files st)(fn \<mapsto> rs @ rows) \<and>
          list_all2 data_row rows samples"
proof (induction samples arbitrary: st rs)
  case Nil
  then show ?case by (intro exI [of _ "[]"]) (simp add: feed_def map_upd_triv)
next
  case (Cons s samples)
  obtain v clk where s: "s = (v, clk)" by (cases s)
  let ?st = "accept_sample v clk st"
  from files_accept_active [OF Cons.prems] obtain row
    where row: "files ?st = (files st)(fn \<mapsto> rs @ [row])" "data_row row (v, clk)"
    by blast
  have "is_recording ?st" "csv_writer ?st = Some fn" "files ?st fn = Some (rs @ [row])"
    using Cons.prems(1,2) row(1) by (simp_all add: recorder_accept_sample)
  from Cons.IH [OF this] obtain rows
    where rows: "files (feed ?st samples) = (files ?st)(fn \<mapsto> (rs @ [row]) @ rows)"
      "list_all2 data_row rows samples"
    by blast
  have "feed st (s # samples) = feed ?st samples"
    by (simp add: feed_def s)
  then have "files (feed st (s # samples)) = (files st)(fn \<mapsto> rs @ (row # rows))"
    using rows(1) row(1) by simp
  moreover have "list_all2 data_row (row # rows) (s # samples)"
    using rows(2) row(2) by (simp add: s)
  ultimately show ?case by blast
qed

lemma files_step_active:
  assumes a: "\<not> is_toggle a"
    and act: "is_recording st" "csv_writer st = Some fn" "files st fn = Some rs"
  shows "\<exists>rows. files (step st a) = (files st)(fn \<mapsto> rs @ rows) \<and>
               list_all2 data_row rows (samples_of [a])"
proof (cases a)
  case (Tick lines)
  from files_feed_active [OF act, of "tick_samples lines"] Tick show ?thesis
    by (simp add: update_feed files_present)
next
  case (Record_toggle timestamp open_ok)
  with a show ?thesis by simp
qed (use act in \<open>simp_all add: func_check_def func_clear_def make_callback_def
      func_custom_record_def Let_def map_upd_triv\<close>)

lemma samples_of_Cons: "samples_of (a # acts) = samples_of [a] @ samples_of acts"
  by (cases a) simp_all

lemma run_active:
  "\<forall>a\<in>set acts. \<not> is_toggle a \<Longrightarrow>
   is_recording st \<Longrightarrow> csv_writer st = Some fn \<Longrightarrow> files st fn = Some rs \<Longrightarrow>
   recorder (run st acts) = recorder st \<and>
   (\<exists>rows. files (run st acts) = (files st)(fn \<mapsto> rs @ rows) \<and>
           list_all2 data_row rows (samples_of acts))"
proof (induction acts arbitrary: st rs)
  case Nil
  then show ?case by (intro conjI exI [of _ "[]"]) (simp_all add: run_def map_upd_triv)
next
  case (Cons a acts)
  then have a: "\<not> is_toggle a" and rest: "\<forall>a\<in>set acts. \<not> is_toggle a"
    by simp_all
  let ?st = "step st a"
  have r: "recorder ?st = recorder st"
    using a by (rule recorder_step)
  from files_step_active [OF a Cons.prems(2-4)] obtain rows1
    where rows1: "files ?st = (files st)(fn \<mapsto> rs @ rows1)"
      "list_all2 data_row rows1 (samples_of [a])"
    by blast
  have "is_recording ?st" "csv_writer ?st = Some fn" "files ?st fn = Some (rs @ rows1)"
    using r Cons.prems(2,3) rows1(1) by (simp_all add: recorder_def)
  from Cons.IH [OF rest this] obtain rows2
    where rec: "recorder (run ?st acts) = recorder ?st"
      and rows2: "files (run ?st acts) = (files ?st)(fn \<mapsto> (rs @ rows1) @ rows2)"
        "list_all2 data_row rows2 (samples_of acts)"
    by blast
  have run: "run st (a # acts) = run ?st acts"
    by (simp add: run_def)
  have "files (run st (a # acts)) = (files st)(fn \<mapsto> rs @ (rows1 @ rows2))"
    using rows2(1) rows1(1) by (simp add: run)
  moreover have "list_all2 data_row (rows1 @ rows2) (samples_of (a # acts))"
    using rows1(2) rows2(2) by (subst samples_of_Cons) (rule list_all2_appendI)
  moreover have "recorder (run st (a # acts)) = recorder st"
    using rec r by (simp add: run)
  ultimately show ?case by blast
qed

lemma run_append: "run st (as @ bs) = run (run st as) bs"
  by (simp add: run_def)

lemma run_Cons: "run st (a # as) = run (step st a) as"
  by (simp add: run_def)

lemma run_Nil: "run st [] = st"
  by (simp add: run_def)

lemma start_ok:
  "\<not> is_recording st \<Longrightarrow>
   func_record_toggle timestamp True st =
     st\<lparr>is_recording := True,
        current_run_id := current_run_id st + 1,
        current_filename := run_filename (current_run_id st + 1) timestamp,
        csv_file := Some (run_filename (current_run_id st + 1) timestamp),
        csv_writer := Some (run_filename (current_run_id st + 1) timestamp),
        files := (files st)(run_filename (current_run_id st + 1) timestamp \<mapsto> [header_row]),
        console := console st @ [Recording_started (run_filename (current_run_id st + 1) timestamp)]\<rparr>"
  by (simp add: func_record_toggle_def Let_def writerow_def)

lemma start_failed:
  "\<not> is_recording st \<Longrightarrow>
   func_record_toggle timestamp False st =
     st\<lparr>current_run_id := current_run_id st + 1,
        current_filename := run_filename (current_run_id st + 1) timestamp,
        console := console st @ [Create_file_failed]\<rparr>"
  by (simp add: func_record_toggle_def Let_def)

lemma stop_session:
  "is_recording st \<Longrightarrow> csv_file st \<noteq> None \<Longrightarrow>
   func_record_toggle timestamp open_ok st =
     st\<lparr>is_recording := False, csv_file := None, csv_writer := None,
        console := console st @ [File_saved (current_filename st)]\<rparr>"
  by (simp add: func_record_toggle_def Let_def)

section \<open>A recording session\<close>

text \<open>
  C2. Starting a session from the idle recorder (the file opens), then any activity of
  the program other than the record button, then stopping the session changes exactly
  one file, the one named after the new run index and the start time: it holds the
  header row \<open>Timestamp, Time_Sec, Voltage, Event_Note\<close> followed by one data row for
  each sample accepted in between, in order, and nothing else. The recorder is idle
  again and the file is closed.
\<close>

theorem recording_session_file:
  assumes idle: "\<not> is_recording st"
    and acts: "\<forall>a\<in>set acts. \<not> is_toggle a"
  shows "\<exists>rows.
    files (run st (Record_toggle timestamp True # acts @ [Record_toggle timestamp' open_ok])) =
      (files st)(run_filename (current_run_id st + 1) timestamp \<mapsto>
        [Str ''Timestamp'', Str ''Time_Sec'', Str ''Voltage'', Str ''Event_Note''] # rows) \<and>
    list_all2 data_row rows (samples_of acts) \<and>
    length rows = length (samples_of acts) \<and>
    \<not> is_recording (run st (Record_toggle timestamp True # acts @ [Record_toggle timestamp' open_ok])) \<and>
    csv_file (run st (Record_toggle timestamp True # acts @ [Record_toggle timestamp' open_ok])) = None"
proof -
  let ?fn = "run_filename (current_run_id st + 1) timestamp"
  let ?st1 = "func_record_toggle timestamp True st"
  let ?st2 = "run ?st1 acts"
  let ?st3 = "func_record_toggle timestamp' open_ok ?st2"
  have st1: "is_recording ?st1" "csv_writer ?st1 = Some ?fn" "csv_file ?st1 = Some ?fn"
    "files ?st1 = (files st)(?fn \<mapsto> [header_row])"
    using idle by (simp_all add: start_ok)
  then have "files ?st1 ?fn = Some [header_row]"
    by simp
  from run_active [OF acts st1(1,2) this] obtain rows
    where rec: "recorder ?st2 = recorder ?st1"
      and rows: "files ?st2 = (files ?st1)(?fn \<mapsto> [header_row] @ rows)"
        "list_all2 data_row rows (samples_of acts)"
    by blast
  from rec st1 have st2: "is_recording ?st2" "csv_file ?st2 \<noteq> None"
    by (simp_all add: recorder_def)
  have st3: "files ?st3 = files ?st2" "\<not> is_recording ?st3" "csv_file ?st3 = None"
    by (simp_all add: stop_session [OF st2])
  have final: "run st (Record_toggle timestamp True # acts @ [Record_toggle timestamp' open_ok]) = ?st3"
    by (simp add: run_Cons run_append run_Nil)
  have "files ?st3 = (files st)(?fn \<mapsto> header_row # rows)"
    by (simp add: st3 rows st1)
  moreover have "length rows = length (samples_of acts)"
    using rows(2) by (rule list_all2_lengthD)
  ultimately show ?thesis
    unfolding final using rows(2) st3 by (auto simp: header_row_def)
qed

theorem recording_session_file_witness:
  "\<exists>rows.
     files (run init_state
       [Record_toggle ''142501'' True,
        Tick [(Volts 1, \<lparr>time_str = ''14:25:02.100'', elapsed_str = ''3.000'', save_str = ''14:25:02''\<rparr>),
              (Garbage, \<lparr>time_str = ''14:25:02.100'', elapsed_str = ''3.000'', save_str = ''14:25:02''\<rparr>),
              (Volts 2, \<lparr>time_str = ''14:25:02.101'', elapsed_str = ''3.001'', save_str = ''14:25:02''\<rparr>)],
        Preset ''Touch'',
        Clear,
        Tick [(Blank, \<lparr>time_str = ''14:25:02.130'', elapsed_str = ''3.030'', save_str = ''14:25:02''\<rparr>),
              (Volts 3, \<lparr>time_str = ''14:25:02.130'', elapsed_str = ''3.030'', save_str = ''14:25:02''\<rparr>)],
        Record_toggle ''142503'' True]) =
       [''Run_01_142501.csv'' \<mapsto>
          [Str ''Timestamp'', Str ''Time_Sec'', Str ''Voltage'', Str ''Event_Note''] # rows] \<and>
     length rows = 3"
proof -
  let ?acts = "[Tick [(Volts 1, \<lparr>time_str = ''14:25:02.100'', elapsed_str = ''3.000'', save_str = ''14:25:02''\<rparr>),
              (Garbage, \<lparr>time_str = ''14:25:02.100'', elapsed_str = ''3.000'', save_str = ''14:25:02''\<rparr>),
              (Volts 2, \<lparr>time_str = ''14:25:02.101'', elapsed_str = ''3.001'', save_str = ''14:25:02''\<rparr>)],
        Preset ''Touch'',
        Clear,
        Tick [(Blank, \<lparr>time_str = ''14:25:02.130'', elapsed_str = ''3.030'', save_str = ''14:25:02''\<rparr>),
              (Volts 3, \<lparr>time_str = ''14:25:02.130'', elapsed_str = ''3.030'', save_str = ''14:25:02''\<rparr>)]]"
  have idle: "\<not> is_recording init_state"
    by (simp add: init_state_def)
  have acts: "\<forall>a\<in>set ?acts. \<not> is_toggle a"
    by simp
  have fn: "run_filename (current_run_id init_state + 1) ''142501'' = ''Run_01_142501.csv''"
    by (simp add: init_state_def run_filename_def fmt_02d_def digits_of.simps)
  have fs: "files init_state = Map.empty"
    by (simp add: init_state_def)
  have n: "length (samples_of ?acts) = 3"
    by (simp add: tick_samples_def)
  from recording_session_file [OF idle acts, of "''142501''" "''142503''" True]
  show ?thesis
    unfolding fn fs n by auto
qed

section \<open>A start that fails\<close>

text \<open>
  C5. When the file cannot be opened, the start is aborted: the recorder is idle again,
  the console shows the failure message, no file is created or written and no handle or
  writer is installed. Whatever the program does afterwards, short of another click on
  the record button, the recorder stays idle with the same run index and filename and
  no file changes: the start is not retried and no row is written.
\<close>

theorem failed_start_aborts:
  assumes idle: "\<not> is_recording st"
    and acts: "\<forall>a\<in>set acts. \<not> is_toggle a"
  shows "\<not> is_recording (func_record_toggle timestamp False st) \<and>
    console (func_record_toggle timestamp False st) = console st @ [Create_file_failed] \<and>
    files (func_record_toggle timestamp False st) = files st \<and>
    csv_file (func_record_toggle timestamp False st) = csv_file st \<and>
    csv_writer (func_record_toggle timestamp False st) = csv_writer st \<and>
    \<not> is_recording (run (func_record_toggle timestamp False st) acts) \<and>
    recorder (run (func_record_toggle timestamp False st) acts) =
      recorder (func_record_toggle timestamp False st) \<and>
    files (run (func_record_toggle timestamp False st) acts) = files st"
proof -
  let ?st1 = "func_record_toggle timestamp False st"
  have st1: "\<not> is_recording ?st1" "console ?st1 = console st @ [Create_file_failed]"
    "files ?st1 = files st" "csv_file ?st1 = csv_file st" "csv_writer ?st1 = csv_writer st"
    using idle by (simp_all add: start_failed)
  from run_idle [OF acts st1(1)]
  have later: "recorder (run ?st1 acts) = recorder ?st1" "files (run ?st1 acts) = files ?st1"
    by simp_all
  then have "\<not> is_recording (run ?st1 acts)"
    using st1(1) by (simp add: recorder_def)
  with st1 later show ?thesis by simp
qed

theorem failed_start_aborts_witness:
  "\<not> is_recording (func_record_toggle ''142501'' False init_state) \<and>
   console (func_record_toggle ''142501'' False init_state) = [Create_file_failed] \<and>
   files (run (func_record_toggle ''142501'' False init_state)
     [Preset ''Touch'',
      Tick [(Volts 1, \<lparr>time_str = ''14:25:02.100'', elapsed_str = ''3.000'', save_str = ''14:25:02''\<rparr>)],
      Clear]) = Map.empty \<and>
   \<not> is_recording (run (func_record_toggle ''142501'' False init_state)
     [Preset ''Touch'',
      Tick [(Volts 1, \<lparr>time_str = ''14:25:02.100'', elapsed_str = ''3.000'', save_str = ''14:25:02''\<rparr>)],
      Clear])"
proof -
  let ?acts = "[Preset ''Touch'',
      Tick [(Volts 1, \<lparr>time_str = ''14:25:02.100'', elapsed_str = ''3.000'', save_str = ''14:25:02''\<rparr>)],
      Clear]"
  have idle: "\<not> is_recording init_state"
    by (simp add: init_state_def)
  have acts: "\<forall>a\<in>set ?acts. \<not> is_toggle a"
    by simp
  have init: "files init_state = Map.empty" "console init_state = []"
    by (simp_all add: init_state_def)
  from failed_start_aborts [OF idle acts, of "''142501''"] show ?thesis
    unfolding init by simp
qed

section \<open>The header row\<close>

text \<open>
  The first start of the program at 14:25:01: the new file holds the header with the
  field names \<open>Time_Sec\<close> and \<open>Event_Note\<close>, not \<open>ElapsedSeconds\<close> and
  \<open>EventNote\<close>.
\<close>

theorem header_fields_counterexample:
  "files (func_record_toggle ''142501'' True init_state) ''Run_01_142501.csv'' =
     Some [[Str ''Timestamp'', Str ''Time_Sec'', Str ''Voltage'', Str ''Event_Note'']] \<and>
   files (func_record_toggle ''142501'' True init_state) ''Run_01_142501.csv'' \<noteq>
     Some [[Str ''Timestamp'', Str ''ElapsedSeconds'', Str ''Voltage'', Str ''EventNote'']]"
  by (simp add: func_record_toggle_def init_state_def Let_def writerow_def header_row_def
      run_filename_def fmt_02d_def digits_of.simps)

text \<open>
  C6, as the code has it. A start from the idle recorder whose file opens leaves in the
  new file exactly one row, the fixed header of the four fields \<open>Timestamp\<close>,
  \<open>Time_Sec\<close>, \<open>Voltage\<close> and \<open>Event_Note\<close>. The second and the fourth field are not
  named \<open>ElapsedSeconds\<close> and \<open>EventNote\<close>.
\<close>

theorem start_writes_header:
  assumes "\<not> is_recording st"
  shows "files (func_record_toggle timestamp True st) (run_filename (current_run_id st + 1) timestamp) =
      Some [header_row] \<and>
    header_row = [Str ''Timestamp'', Str ''Time_Sec'', Str ''Voltage'', Str ''Event_Note''] \<and>
    length header_row = 4 \<and>
    csv_writer (func_record_toggle timestamp True st) = Some (run_filename (current_run_id st + 1) timestamp) \<and>
    is_recording (func_record_toggle timestamp True st)"
  using assms by (simp add: start_ok header_row_def)

theorem start_writes_header_witness:
  "files (func_record_toggle ''090000'' True init_state) ''Run_01_090000.csv'' =
      Some [[Str ''Timestamp'', Str ''Time_Sec'', Str ''Voltage'', Str ''Event_Note'']] \<and>
   is_recording (func_record_toggle ''090000'' True init_state)"
proof -
  have idle: "\<not> is_recording init_state"
    by (simp add: init_state_def)
  have fn: "run_filename (current_run_id init_state + 1) ''090000'' = ''Run_01_090000.csv''"
    by (simp add: init_state_def run_filename_def fmt_02d_def digits_of.simps)
  from start_writes_header [OF idle, of "''090000''"] show ?thesis
    unfolding fn by (simp add: header_row_def)
qed

section \<open>The run index after a failed start\<close>

text \<open>
  C9. A start that fails because the file cannot be opened has already incremented the
  run counter and set the current filename to the name of the file that failed. The
  handler resets only the recording flag: besides the message on the console, the
  counter and the filename are the only variables that differ from before, and nothing
  short of another click on the record button changes them back. The next start that
  succeeds therefore gets the run index after the failed one.
\<close>

theorem failed_start_keeps_run_index:
  assumes idle: "\<not> is_recording st"
    and acts: "\<forall>a\<in>set acts. \<not> is_toggle a"
  shows "func_record_toggle timestamp False st =
      st\<lparr>current_run_id := current_run_id st + 1,
         current_filename := run_filename (current_run_id st + 1) timestamp,
         console := console st @ [Create_file_failed]\<rparr> \<and>
    current_run_id (run (func_record_toggle timestamp False st) acts) = current_run_id st + 1 \<and>
    current_filename (run (func_record_toggle timestamp False st) acts) =
      run_filename (current_run_id st + 1) timestamp \<and>
    is_recording (run (func_record_toggle timestamp False st) (acts @ [Record_toggle timestamp' True])) \<and>
    current_run_id (run (func_record_toggle timestamp False st) (acts @ [Record_toggle timestamp' True])) =
      current_run_id st + 2 \<and>
    current_filename (run (func_record_toggle timestamp False st) (acts @ [Record_toggle timestamp' True])) =
      run_filename (current_run_id st + 2) timestamp'"
proof -
  let ?st1 = "func_record_toggle timestamp False st"
  have eq: "?st1 = st\<lparr>current_run_id := current_run_id st + 1,
         current_filename := run_filename (current_run_id st + 1) timestamp,
         console := console st @ [Create_file_failed]\<rparr>"
    using idle by (rule start_failed)
  then have st1: "\<not> is_recording ?st1" "current_run_id ?st1 = current_run_id st + 1"
    "current_filename ?st1 = run_filename (current_run_id st + 1) timestamp"
    using idle by simp_all
  from run_idle [OF acts st1(1)] have "recorder (run ?st1 acts) = recorder ?st1"
    by simp
  then have st2: "\<not> is_recording (run ?st1 acts)"
    "current_run_id (run ?st1 acts) = current_run_id st + 1"
    "current_filename (run ?st1 acts) = run_filename (current_run_id st + 1) timestamp"
    using st1 by (simp_all add: recorder_def)
  have "run ?st1 (acts @ [Record_toggle timestamp' True]) =
        func_record_toggle timestamp' True (run ?st1 acts)"
    by (simp add: run_append run_Cons run_Nil)
  then have st3: "is_recording (run ?st1 (acts @ [Record_toggle timestamp' True]))"
    "current_run_id (run ?st1 (acts @ [Record_toggle timestamp' True])) = current_run_id st + 2"
    "current_filename (run ?st1 (acts @ [Record_toggle timestamp' True])) =
       run_filename (current_run_id st + 2) timestamp'"
    using st2 by (simp_all add: start_ok add.commute)
  from eq st2 st3 show ?thesis by simp
qed

theorem failed_start_keeps_run_index_witness:
  "current_run_id (func_record_toggle ''142501'' False init_state) = 1 \<and>
   current_filename (func_record_toggle ''142501'' False init_state) = ''Run_01_142501.csv'' \<and>
   \<not> is_recording (func_record_toggle ''142501'' False init_state) \<and>
   current_run_id (run (func_record_toggle ''142501'' False init_state)
     ([Preset ''Touch''] @ [Record_toggle ''142530'' True])) = 2 \<and>
   current_filename (run (func_record_toggle ''142501'' False init_state)
     ([Preset ''Touch''] @ [Record_toggle ''142530'' True])) = ''Run_02_142530.csv''"
proof -
  have idle: "\<not> is_recording init_state"
    by (simp add: init_state_def)
  have acts: "\<forall>a\<in>set [Preset ''Touch'']. \<not> is_toggle a"
    by simp
  have id: "current_run_id init_state = 0"
    by (simp add: init_state_def)
  have fn: "run_filename 1 ''142501'' = ''Run_01_142501.csv''"
    "run_filename 2 ''142530'' = ''Run_02_142530.csv''"
    by (simp_all add: run_filename_def fmt_02d_def digits_of.simps)
  note t = failed_start_keeps_run_index [OF idle acts, of "''142501''" "''142530''"]
  from t have e: "func_record_toggle ''142501'' False init_state =
      init_state\<lparr>current_run_id := current_run_id init_state + 1,
         current_filename := run_filename (current_run_id init_state + 1) ''142501'',
         console := console init_state @ [Create_file_failed]\<rparr>"
    by (rule conjunct1)
  have "current_run_id (func_record_toggle ''142501'' False init_state) = 1"
    "current_filename (func_record_toggle ''142501'' False init_state) = ''Run_01_142501.csv''"
    "\<not> is_recording (func_record_toggle ''142501'' False init_state)"
    by (subst e, simp add: id fn idle)+
  moreover from t have "current_run_id (run (func_record_toggle ''142501'' False init_state)
      ([Preset ''Touch''] @ [Record_toggle ''142530'' True])) = current_run_id init_state + 2"
    by blast
  moreover from t have "current_filename (run (func_record_toggle ''142501'' False init_state)
      ([Preset ''Touch''] @ [Record_toggle ''142530'' True])) =
        run_filename (current_run_id init_state + 2) ''142530''"
    by blast
  ultimately show ?thesis
    by (simp add: id fn)
qed

section \<open>The pending event\<close>

text \<open>
  C4. The register holds one label. Setting it overwrites the label that is there, so
  after two sets the second label is pending. Taking returns the pending label and
  clears the register; the next take returns the empty note and changes nothing. Per
  accepted sample the register is taken once: after two sets the row written for the
  next accepted sample carries the second label, the register is empty afterwards, and
  the row of the sample after that carries the empty note.
\<close>

theorem pending_event_register:
  "pending_event (make_callback l2 (make_callback l1 st)) = Some l2 \<and>
   pending_event (func_custom_record txt (make_callback l1 st)) =
     (if txt = [] then Some l1 else Some txt) \<and>
   take_pending (make_callback l st) =
     (l, st\<lparr>pending_event := None,
            active_markers := active_markers st @ [(l, int MAX_POINTS - 1)]\<rparr>) \<and>
   take_pending (snd (take_pending (make_callback l st))) =
     ('''', snd (take_pending (make_callback l st))) \<and>
   pending_event (snd (take_pending st)) = None \<and>
   pending_event (accept_sample v clk st) = None \<and>
   files (accept_sample v clk (make_callback l2 (make_callback l1 st))) =
     (case csv_writer st of
        Some w \<Rightarrow>
          if is_recording st then
            writerow w [Str (time_str clk), Str (elapsed_str clk), Num v, Str l2] (files st)
          else files st
      | None \<Rightarrow> files st) \<and>
   files (accept_sample v' clk' (accept_sample v clk st)) =
     (case csv_writer st of
        Some w \<Rightarrow>
          if is_recording st then
            writerow w [Str (time_str clk'), Str (elapsed_str clk'), Num v', Str '''']
              (files (accept_sample v clk st))
          else files st
      | None \<Rightarrow> files st)"
proof -
  have set2: "pending_event (make_callback l2 (make_callback l1 st)) = Some l2"
    by (simp add: make_callback_def)
  have custom: "pending_event (func_custom_record txt (make_callback l1 st)) =
      (if txt = [] then Some l1 else Some txt)"
    by (simp add: func_custom_record_def make_callback_def)
  have take1: "take_pending (make_callback l st) =
     (l, st\<lparr>pending_event := None,
            active_markers := active_markers st @ [(l, int MAX_POINTS - 1)]\<rparr>)"
    by (simp add: take_pending_def make_callback_def)
  have take2: "take_pending (snd (take_pending (make_callback l st))) =
     ('''', snd (take_pending (make_callback l st)))"
    by (simp add: take1) (simp add: take_pending_def)
  have cleared: "pending_event (snd (take_pending st)) = None"
    by (simp add: take_pending_def split: option.splits)
  have row1: "files (accept_sample v clk (make_callback l2 (make_callback l1 st))) =
     (case csv_writer st of
        Some w \<Rightarrow>
          if is_recording st then
            writerow w [Str (time_str clk), Str (elapsed_str clk), Num v, Str l2] (files st)
          else files st
      | None \<Rightarrow> files st)"
    by (simp add: files_accept_sample make_callback_def split: option.splits)
  have row2: "files (accept_sample v' clk' (accept_sample v clk st)) =
     (case csv_writer st of
        Some w \<Rightarrow>
          if is_recording st then
            writerow w [Str (time_str clk'), Str (elapsed_str clk'), Num v', Str '''']
              (files (accept_sample v clk st))
          else files st
      | None \<Rightarrow> files st)"
    by (simp add: files_accept_sample [of v' clk'] recorder_accept_sample
        pending_event_accept_sample files_accept_sample [of v clk] split: option.splits)
  from set2 custom take1 take2 cleared row1 row2 show ?thesis
    by (simp only: pending_event_accept_sample simp_thms)
qed

section \<open>The display of the running program\<close>

lemma data_buffer_present: "data_buffer (present st) = data_buffer st"
  by (simp add: present_def Let_def)

lemma data_buffer_step:
  "data_buffer (step st a) =
     (case a of
        Tick lines \<Rightarrow> deque_extend MAX_POINTS (data_buffer st) (map fst (tick_samples lines))
      | Clear \<Rightarrow> replicate MAX_POINTS (last_valid_voltage st)
      | _ \<Rightarrow> data_buffer st)"
  by (cases a)
    (simp_all add: update_feed data_buffer_present data_buffer_feed data_buffer_func_clear
      func_record_toggle_def func_check_def make_callback_def func_custom_record_def Let_def)

lemma length_data_buffer_step:
  "length (data_buffer st) = MAX_POINTS \<Longrightarrow> length (data_buffer (step st a)) = MAX_POINTS"
  by (subst data_buffer_step) (cases a; simp add: deque_extend_drop)

lemma length_data_buffer_run:
  "length (data_buffer st) = MAX_POINTS \<Longrightarrow> length (data_buffer (run st acts)) = MAX_POINTS"
  by (induction acts arbitrary: st) (simp_all add: run_Nil run_Cons length_data_buffer_step)

lemma deque_extend_append:
  "deque_extend n d (xs @ ys) = deque_extend n (deque_extend n d xs) ys"
  by (simp add: deque_extend_def)

lemma data_buffer_run_no_clear:
  "Clear \<notin> set acts \<Longrightarrow>
   data_buffer (run st acts) = deque_extend MAX_POINTS (data_buffer st) (map fst (samples_of acts))"
proof (induction acts arbitrary: st)
  case Nil
  then show ?case by (simp add: run_Nil deque_extend_def)
next
  case (Cons a acts)
  then have "data_buffer (run (step st a) acts) =
      deque_extend MAX_POINTS (data_buffer (step st a)) (map fst (samples_of acts))"
    by simp
  moreover have "data_buffer (step st a) =
      deque_extend MAX_POINTS (data_buffer st) (map fst (samples_of [a]))"
    using Cons.prems by (subst data_buffer_step) (cases a; simp add: deque_extend_def)
  ultimately show ?case
    by (simp add: run_Cons samples_of_Cons [of a acts] deque_extend_append)
qed

lemma classify_full: "length y = MAX_POINTS \<Longrightarrow> classify y \<noteq> Wait"
  by (simp add: classify_def MAX_POINTS_def Let_def)

lemma foldl_max: "foldl max (hd xs) (tl xs) = Max (set xs)" if "xs \<noteq> []" for xs :: "real list"
proof -
  from that obtain a as where xs: "xs = a # as" by (cases xs) auto
  have "Max (set (a # as)) = fold max as a"
    by (rule Max.set_eq_fold)
  also have "\<dots> = foldl max a as"
    by (simp add: foldl_conv_fold max.commute)
  finally show ?thesis by (simp add: xs)
qed

lemma foldl_min: "foldl min (hd xs) (tl xs) = Min (set xs)" if "xs \<noteq> []" for xs :: "real list"
proof -
  from that obtain a as where xs: "xs = a # as" by (cases xs) auto
  have "Min (set (a # as)) = fold min as a"
    by (rule Min.set_eq_fold)
  also have "\<dots> = foldl min a as"
    by (simp add: foldl_conv_fold min.commute)
  finally show ?thesis by (simp add: xs)
qed

lemma text_right_present:
  "data_buffer st \<noteq> [] \<Longrightarrow>
   text_right (present st) =
     Some \<lparr>curr_val = last_valid_voltage st, max_val = Max (set (data_buffer st)),
           min_val = Min (set (data_buffer st)),
           avg_val = sum_list (data_buffer st) / real (length (data_buffer st)),
           amp_val = Max (set (data_buffer st)) - Min (set (data_buffer st)),
           trend_str = classify (data_buffer st)\<rparr>"
  by (simp add: present_def Let_def foldl_max foldl_min)

lemma last_valid_voltage_present: "last_valid_voltage (present st) = last_valid_voltage st"
  by (simp add: present_def Let_def)

lemma trend_shown_step:
  assumes len: "length (data_buffer st) = MAX_POINTS" and old: "trend_shown st \<noteq> Some Wait"
  shows "trend_shown (step st a) \<noteq> Some Wait"
proof (cases a)
  case (Tick lines)
  let ?st = "feed st (tick_samples lines)"
  have l: "length (data_buffer ?st) = MAX_POINTS"
    using len by (rule length_feed)
  then have "data_buffer ?st \<noteq> []"
    by (auto simp: MAX_POINTS_def)
  then show ?thesis
    using classify_full [OF l] by (simp add: Tick update_feed trend_shown_def text_right_present)
qed (use old in \<open>simp_all add: trend_shown_def func_record_toggle_def func_check_def
      func_clear_def make_callback_def func_custom_record_def Let_def\<close>)

lemma trend_shown_run:
  "length (data_buffer st) = MAX_POINTS \<Longrightarrow> trend_shown st \<noteq> Some Wait \<Longrightarrow>
   trend_shown (run st acts) \<noteq> Some Wait"
  by (induction acts arbitrary: st)
    (simp_all add: run_Nil run_Cons length_data_buffer_step trend_shown_step)

lemma last_valid_voltage_func_clear: "last_valid_voltage (func_clear st) = last_valid_voltage st"
  by (simp add: func_clear_def)

text \<open>
  One sample of 5 V arrives, the view is reset, and the next tick finds no line: the
  buffer holds 300 times 5 V and no zero, and the text box shows the minimum 5, the
  maximum 5 and the mean 5, although only one sample has arrived.
\<close>

theorem reset_replaces_fillers_counterexample:
  "length (samples_of
     [Tick [(Volts 5, \<lparr>time_str = ''14:25:02.100'', elapsed_str = ''3.000'', save_str = ''14:25:02''\<rparr>)],
      Clear, Tick []]) = 1 \<and>
   data_buffer (run init_state
     [Tick [(Volts 5, \<lparr>time_str = ''14:25:02.100'', elapsed_str = ''3.000'', save_str = ''14:25:02''\<rparr>)],
      Clear, Tick []]) = replicate 300 5 \<and>
   data_buffer (run init_state
     [Tick [(Volts 5, \<lparr>time_str = ''14:25:02.100'', elapsed_str = ''3.000'', save_str = ''14:25:02''\<rparr>)],
      Clear, Tick []]) \<noteq> replicate 299 0 @ [5] \<and>
   map_option (\<lambda>d. (min_val d, max_val d, avg_val d))
     (text_right (run init_state
       [Tick [(Volts 5, \<lparr>time_str = ''14:25:02.100'', elapsed_str = ''3.000'', save_str = ''14:25:02''\<rparr>)],
        Clear, Tick []])) = Some (5, 5, 5)"
proof -
  let ?c = "\<lparr>time_str = ''14:25:02.100'', elapsed_str = ''3.000'', save_str = ''14:25:02''\<rparr>"
  let ?st1 = "update [(Volts 5, ?c)] init_state"
  let ?st2 = "func_clear ?st1"
  let ?st3 = "update [] ?st2"
  have run: "run init_state [Tick [(Volts 5, ?c)], Clear, Tick []] = ?st3"
    by (simp add: run_Cons run_Nil)
  have "last_valid_voltage ?st1 = 5"
    by (simp add: update_feed tick_samples_def feed_def last_valid_voltage_present
        last_valid_voltage_accept_sample round64_one)
  then have buf2: "data_buffer ?st2 = replicate 300 5" and lv2: "last_valid_voltage ?st2 = 5"
    by (simp_all add: data_buffer_func_clear last_valid_voltage_func_clear MAX_POINTS_def)
  have st3: "?st3 = present ?st2"
    by (simp add: update_feed tick_samples_def feed_def)
  have buf3: "data_buffer ?st3 = replicate 300 5"
    by (simp only: st3 data_buffer_present buf2)
  have "data_buffer ?st2 \<noteq> []"
    by (simp add: buf2)
  then have "text_right (present ?st2) =
     Some \<lparr>curr_val = last_valid_voltage ?st2, max_val = Max (set (data_buffer ?st2)),
           min_val = Min (set (data_buffer ?st2)),
           avg_val = sum_list (data_buffer ?st2) / real (length (data_buffer ?st2)),
           amp_val = Max (set (data_buffer ?st2)) - Min (set (data_buffer ?st2)),
           trend_str = classify (data_buffer ?st2)\<rparr>"
    by (rule text_right_present)
  then have shown: "map_option (\<lambda>d. (min_val d, max_val d, avg_val d)) (text_right ?st3) =
      Some (5, 5, 5)"
    unfolding st3 buf2 by (simp add: sum_list_replicate)
  have "replicate 300 (5::real) \<noteq> replicate 299 0 @ [5]"
  proof
    assume "replicate 300 (5::real) = replicate 299 0 @ [5]"
    then have "hd (replicate 300 (5::real)) = hd (replicate 299 0 @ [5])"
      by (rule arg_cong)
    then show False by simp
  qed
  with buf3 shown show ?thesis
    unfolding run by (simp add: tick_samples_def)
qed

text \<open>
  C10, as the code has it. The ring buffer is constructed full of zeros, and in every
  state the running program reaches it holds exactly \<^verbatim>\<open>MAX_POINTS\<close> values. So the
  trend of the buffer is never \<open>Wait\<close> and the right text box never shows \<open>Wait\<close>.
  Every tick displays the maximum, the minimum and the mean of the whole buffer. As long
  as the view was not reset and at most \<^verbatim>\<open>MAX_POINTS\<close> samples were accepted, the
  buffer is the remaining filler zeros followed by the accepted samples, so the
  statistics cover the zeros too. A reset of the view replaces the whole buffer, filler
  zeros included, by copies of the last valid voltage.
\<close>

theorem filler_zeros_and_wait:
  "data_buffer init_state = replicate MAX_POINTS 0 \<and>
   length (data_buffer (run init_state acts)) = MAX_POINTS \<and>
   classify (data_buffer (run init_state acts)) \<noteq> Wait \<and>
   trend_shown (run init_state acts) \<noteq> Some Wait \<and>
   text_right (run init_state (acts @ [Tick lines])) =
     Some \<lparr>curr_val = last_valid_voltage (run init_state (acts @ [Tick lines])),
           max_val = Max (set (data_buffer (run init_state (acts @ [Tick lines])))),
           min_val = Min (set (data_buffer (run init_state (acts @ [Tick lines])))),
           avg_val = sum_list (data_buffer (run init_state (acts @ [Tick lines]))) / real MAX_POINTS,
           amp_val = Max (set (data_buffer (run init_state (acts @ [Tick lines])))) -
                     Min (set (data_buffer (run init_state (acts @ [Tick lines])))),
           trend_str = classify (data_buffer (run init_state (acts @ [Tick lines])))\<rparr> \<and>
   (Clear \<notin> set acts \<and> length (samples_of acts) \<le> MAX_POINTS \<longrightarrow>
      data_buffer (run init_state acts) =
        replicate (MAX_POINTS - length (samples_of acts)) 0 @ map fst (samples_of acts)) \<and>
   data_buffer (run init_state (acts @ [Clear])) =
     replicate MAX_POINTS (last_valid_voltage (run init_state acts))"
proof -
  have reset: "data_buffer (run init_state (acts @ [Clear])) =
      replicate MAX_POINTS (last_valid_voltage (run init_state acts))"
    by (simp add: run_append run_Cons run_Nil data_buffer_func_clear)
  have init: "length (data_buffer init_state) = MAX_POINTS"
    by (simp add: data_buffer_init)
  have len: "length (data_buffer (run init_state as)) = MAX_POINTS" for as
    using init by (rule length_data_buffer_run)
  have wait: "classify (data_buffer (run init_state acts)) \<noteq> Wait"
    using len by (rule classify_full)
  have "trend_shown init_state \<noteq> Some Wait"
    by (simp add: trend_shown_def init_state_def)
  with init have shown: "trend_shown (run init_state acts) \<noteq> Some Wait"
    by (rule trend_shown_run)
  let ?st = "feed (run init_state acts) (tick_samples lines)"
  have tick: "run init_state (acts @ [Tick lines]) = present ?st"
    by (simp add: run_append run_Cons run_Nil update_feed)
  have l: "length (data_buffer ?st) = MAX_POINTS"
    using len by (rule length_feed)
  then have "data_buffer ?st \<noteq> []"
    by (auto simp: MAX_POINTS_def)
  then have stats: "text_right (run init_state (acts @ [Tick lines])) =
     Some \<lparr>curr_val = last_valid_voltage (run init_state (acts @ [Tick lines])),
           max_val = Max (set (data_buffer (run init_state (acts @ [Tick lines])))),
           min_val = Min (set (data_buffer (run init_state (acts @ [Tick lines])))),
           avg_val = sum_list (data_buffer (run init_state (acts @ [Tick lines]))) / real MAX_POINTS,
           amp_val = Max (set (data_buffer (run init_state (acts @ [Tick lines])))) -
                     Min (set (data_buffer (run init_state (acts @ [Tick lines])))),
           trend_str = classify (data_buffer (run init_state (acts @ [Tick lines])))\<rparr>"
    unfolding tick by (simp add: text_right_present data_buffer_present last_valid_voltage_present l)
  have fill: "data_buffer (run init_state acts) =
        replicate (MAX_POINTS - length (samples_of acts)) 0 @ map fst (samples_of acts)"
    if "Clear \<notin> set acts" "length (samples_of acts) \<le> MAX_POINTS"
    using that by (simp add: data_buffer_run_no_clear data_buffer_init deque_extend_drop)
  from data_buffer_init len [of acts] wait shown stats fill reset show ?thesis
    by blast
qed

theorem filler_zeros_and_wait_witness:
  "Clear \<notin> set [Tick [(Volts 1, \<lparr>time_str = ''14:25:02.100'', elapsed_str = ''3.000'', save_str = ''14:25:02''\<rparr>)]] \<and>
   length (samples_of [Tick [(Volts 1, \<lparr>time_str = ''14:25:02.100'', elapsed_str = ''3.000'', save_str = ''14:25:02''\<rparr>)]]) \<le> MAX_POINTS \<and>
   data_buffer (run init_state [Tick [(Volts 1, \<lparr>time_str = ''14:25:02.100'', elapsed_str = ''3.000'', save_str = ''14:25:02''\<rparr>)]]) =
     replicate 299 0 @ [1]"
proof -
  let ?acts = "[Tick [(Volts 1, \<lparr>time_str = ''14:25:02.100'', elapsed_str = ''3.000'', save_str = ''14:25:02''\<rparr>)]]"
  have h: "Clear \<notin> set ?acts" "length (samples_of ?acts) \<le> MAX_POINTS"
    by (simp_all add: tick_samples_def MAX_POINTS_def)
  from filler_zeros_and_wait [of ?acts]
  have "data_buffer (run init_state ?acts) =
        replicate (MAX_POINTS - length (samples_of ?acts)) 0 @ map fst (samples_of ?acts)"
    using h by blast
  then have "data_buffer (run init_state ?acts) = replicate 299 0 @ [1]"
    by (simp add: tick_samples_def MAX_POINTS_def round64_one)
  with h show ?thesis by blast
qed

end
